theory Spec2Isabelle
  imports Main
begin

section \<open>Strings of the Python runtime\<close>

text \<open>
  A Python \<open>str\<close> is a sequence of Unicode code points, and \<open>len\<close>, indexing and
  \<open>Match.start\<close> count code points. A string is therefore modelled as a list of code
  points, each a natural number. ASCII literals of the source are written
  \<open>ascii ''...''\<close>; characters outside ASCII are written as hexadecimal numerals.
\<close>

type_synonym codepoint = nat
type_synonym str = "codepoint list"

definition ascii :: "string \<Rightarrow> str" where
  "ascii s = map of_char s"

text \<open>
  \<open>\s\<close> in a \<open>str\<close> pattern of module \<open>re\<close> (no \<open>re.ASCII\<close> flag) matches the Unicode
  whitespace characters, the ones for which \<open>str.isspace\<close> holds: the ASCII controls
  U+0009..U+000D and U+001C..U+001F, the space, U+0085, U+00A0, U+1680, U+2000..U+200A,
  U+2028, U+2029, U+202F, U+205F and U+3000.
\<close>

definition isspace :: "codepoint \<Rightarrow> bool" where
  "isspace c \<longleftrightarrow>
     (0x09 \<le> c \<and> c \<le> 0x0D) \<or> (0x1C \<le> c \<and> c \<le> 0x20) \<or> c = 0x85 \<or> c = 0xA0 \<or>
     c = 0x1680 \<or> (0x2000 \<le> c \<and> c \<le> 0x200A) \<or> c = 0x2028 \<or> c = 0x2029 \<or>
     c = 0x202F \<or> c = 0x205F \<or> c = 0x3000"

text \<open>
  \<open>str.isalpha\<close> and \<open>str.upper\<close> read the Unicode character database of the
  interpreter. The rows for U+0000..U+00FF are tabulated here; the rows of the code
  points from U+0100 on are a parameter of the model (a \<open>ucd\<close>), so that every theorem
  with a free \<open>U\<close> holds whatever those rows are.
\<close>

record ucd =
  isalpha_from_0100 :: "codepoint \<Rightarrow> bool"
  upper_from_0100 :: "codepoint \<Rightarrow> str"

definition latin1_isalpha :: "codepoint \<Rightarrow> bool" where
  "latin1_isalpha c \<longleftrightarrow>
     (0x41 \<le> c \<and> c \<le> 0x5A) \<or> (0x61 \<le> c \<and> c \<le> 0x7A) \<or>
     c = 0xAA \<or> c = 0xB5 \<or> c = 0xBA \<or>
     (0xC0 \<le> c \<and> c \<le> 0xD6) \<or> (0xD8 \<le> c \<and> c \<le> 0xF6) \<or> (0xF8 \<le> c \<and> c \<le> 0xFF)"

definition latin1_upper :: "codepoint \<Rightarrow> str" where
  "latin1_upper c =
     (if 0x61 \<le> c \<and> c \<le> 0x7A then [c - 0x20]
      else if c = 0xB5 then [0x39C]
      else if c = 0xDF then [0x53, 0x53]
      else if (0xE0 \<le> c \<and> c \<le> 0xF6) \<or> (0xF8 \<le> c \<and> c \<le> 0xFE) then [c - 0x20]
      else if c = 0xFF then [0x178]
      else [c])"

definition cp_isalpha :: "ucd \<Rightarrow> codepoint \<Rightarrow> bool" where
  "cp_isalpha U c = (if c < 0x100 then latin1_isalpha c else isalpha_from_0100 U c)"

definition cp_upper :: "ucd \<Rightarrow> codepoint \<Rightarrow> str" where
  "cp_upper U c = (if c < 0x100 then latin1_upper c else upper_from_0100 U c)"

text \<open>\<open>s.isalpha()\<close>: the string is not empty and every character is alphabetic.\<close>

definition isalpha :: "ucd \<Rightarrow> str \<Rightarrow> bool" where
  "isalpha U s \<longleftrightarrow> s \<noteq> [] \<and> list_all (cp_isalpha U) s"

text \<open>\<open>s.upper()\<close>: the uppercase mappings of the characters, one after the other.\<close>

definition upper :: "ucd \<Rightarrow> str \<Rightarrow> str" where
  "upper U s = concat (map (cp_upper U) s)"

text \<open>
  \<open>s.find(sub)\<close>: the lowest index at which \<open>sub\<close> occurs in \<open>s\<close>, and \<open>-1\<close> when it
  occurs nowhere. \<open>find_from i\<close> searches a suffix that starts at index \<open>i\<close>.
\<close>

fun find_from :: "nat \<Rightarrow> str \<Rightarrow> str \<Rightarrow> int" where
  "find_from i [] sub = (if sub = [] then int i else - 1)"
| "find_from i (h # hs) sub =
     (if take (length sub) (h # hs) = sub then int i else find_from (Suc i) hs sub)"

definition find :: "str \<Rightarrow> str \<Rightarrow> int" where
  "find s sub = find_from 0 s sub"

definition ascii_uppercase :: str where
  "ascii_uppercase = ascii ''ABCDEFGHIJKLMNOPQRSTUVWXYZ''"

text \<open>A concrete parameter, for closed instances of the theorems:
  a database in which no code point from U+0100 on is alphabetic or has an uppercase
  mapping other than itself.\<close>

definition latin1_only :: ucd where
  "latin1_only = \<lparr>isalpha_from_0100 = (\<lambda>c. False), upper_from_0100 = (\<lambda>c. [c])\<rparr>"

section \<open>Errors\<close>

text \<open>
  The exceptions the module raises. \<open>LexicalAnalysisFailedError\<close> is raised with a
  message formatted from \<open>mat.start() + 1\<close> and \<open>mat.group()\<close>; the model keeps these
  two values, the column and the offending text. \<open>IndexError\<close> is what indexing
  \<open>string.ascii_uppercase\<close> out of range raises.
\<close>

datatype error =
    ValueError
  | RuntimeError
  | IndexError
  | LexicalAnalysisFailedError nat str

section \<open>Symbol\<close>

text \<open>\<open>class Symbol(int)\<close>: a symbol is a Python integer.\<close>

type_synonym symbol = int

definition from_letter :: "ucd \<Rightarrow> str \<Rightarrow> error + symbol" where
  "from_letter U letter =
     (if length letter \<noteq> 1 then Inl ValueError
      else if \<not> isalpha U letter then Inl ValueError
      else Inr (find ascii_uppercase (upper U letter)))"

text \<open>
  \<open>Symbol.__str__\<close> is \<open>string.ascii_uppercase[self]\<close>: an index from \<open>-26\<close> to \<open>-1\<close>
  counts from the end, and any index outside \<open>-26..25\<close> raises \<open>IndexError\<close>. The result is
  a string of one character.
\<close>

definition symbol_str :: "symbol \<Rightarrow> error + str" where
  "symbol_str self =
     (let n = int (length ascii_uppercase); j = (if self < 0 then n + self else self)
      in if 0 \<le> j \<and> j < n then Inr [ascii_uppercase ! nat j] else Inl IndexError)"

section \<open>Operator\<close>

record operator_spec =
  input_form :: str
  actual_form :: str
  priority :: int

datatype operator = NEG | CONJ | DISJ | MAT_COND | BICOND

text \<open>The value of each member of the enumeration.\<close>

fun operator_value :: "operator \<Rightarrow> operator_spec" where
  "operator_value NEG = \<lparr>input_form = ascii ''!'', actual_form = [0xAC], priority = 100\<rparr>"
| "operator_value CONJ = \<lparr>input_form = ascii ''&'', actual_form = [0x2227], priority = 90\<rparr>"
| "operator_value DISJ = \<lparr>input_form = ascii ''|'', actual_form = [0x2228], priority = 80\<rparr>"
| "operator_value MAT_COND = \<lparr>input_form = ascii ''~'', actual_form = [0x2192], priority = 70\<rparr>"
| "operator_value BICOND = \<lparr>input_form = ascii ''='', actual_form = [0x2194], priority = 60\<rparr>"

text \<open>Iterating over the enumeration (\<open>for op in cls\<close>) visits the members in the order
  of their definition.\<close>

definition operators :: "operator list" where
  "operators = [NEG, CONJ, DISJ, MAT_COND, BICOND]"

fun from_input_form_loop :: "operator list \<Rightarrow> str \<Rightarrow> error + operator" where
  "from_input_form_loop [] form = Inl ValueError"
| "from_input_form_loop (op # ops) form =
     (if input_form (operator_value op) = form then Inr op
      else from_input_form_loop ops form)"

definition from_input_form :: "str \<Rightarrow> error + operator" where
  "from_input_form form = from_input_form_loop operators form"

section \<open>Tokens\<close>

text \<open>
  The four concrete token classes, each with its value and its position. The value of a
  parenthesis token is always \<open>None\<close> and is left out. Equality is the dataclass's:
  same class, same value, same position.
\<close>

datatype token =
    SymbolToken symbol nat
  | OperatorToken operator nat
  | LeftParenToken nat
  | RightParenToken nat

fun position :: "token \<Rightarrow> nat" where
  "position (SymbolToken v p) = p"
| "position (OperatorToken v p) = p"
| "position (LeftParenToken p) = p"
| "position (RightParenToken p) = p"

text \<open>
  What a consumer can observe of a generator: the values it yields, one after the other,
  and then either its normal end or the exception it raises.
\<close>

datatype 'a gen = Yield 'a "'a gen" | Done | Raise error

fun yielded :: "'a gen \<Rightarrow> 'a list" where
  "yielded (Yield x g) = x # yielded g"
| "yielded Done = []"
| "yielded (Raise e) = []"

fun raised :: "'a gen \<Rightarrow> error option" where
  "raised (Yield x g) = raised g"
| "raised Done = None"
| "raised (Raise e) = Some e"

fun yield_all :: "'a list \<Rightarrow> 'a gen \<Rightarrow> 'a gen" where
  "yield_all [] g = g"
| "yield_all (x # xs) g = Yield x (yield_all xs g)"

section \<open>The scanner\<close>

text \<open>The names of the groups of \<open>create_token_spec\<close>, in its order.\<close>

datatype group = SYMBOL | OPERATOR | PAREN | SKIP | MISMATCH

definition ascii_letter :: "codepoint \<Rightarrow> bool" where
  \<comment> \<open>the character class \<open>[A-Za-z]\<close>\<close>
  "ascii_letter c \<longleftrightarrow> (0x41 \<le> c \<and> c \<le> 0x5A) \<or> (0x61 \<le> c \<and> c \<le> 0x7A)"

text \<open>
  \<open>op_pattern\<close> joins the escaped input forms of the operators with \<open>|\<close>, in the order of
  the enumeration: it matches the first input form that the rest of the input starts with.
\<close>

definition op_pattern :: "str \<Rightarrow> str option" where
  "op_pattern rest =
     map_option (\<lambda>op. input_form (operator_value op))
       (List.find (\<lambda>op. take (length (input_form (operator_value op))) rest
                          = input_form (operator_value op)) operators)"

text \<open>
  One attempt of the compiled pattern at the cursor, on the rest of the input: the
  alternatives in their order, \<open>\s+\<close> taking the whole run of whitespace and \<open>.\<close> any
  character but a newline. The result is \<open>lastgroup\<close> and \<open>group()\<close>, or \<open>None\<close> when no
  alternative matches.
\<close>

definition pattern :: "str \<Rightarrow> (group \<times> str) option" where
  "pattern rest =
     (case rest of
        [] \<Rightarrow> None
      | c # cs \<Rightarrow>
          (if ascii_letter c then Some (SYMBOL, [c])
           else (case op_pattern rest of
                   Some txt \<Rightarrow> Some (OPERATOR, txt)
                 | None \<Rightarrow>
                     (if c = 0x28 \<or> c = 0x29 then Some (PAREN, [c])
                      else if isspace c then Some (SKIP, takeWhile isspace rest)
                      else if c \<noteq> 0x0A then Some (MISMATCH, [c])
                      else None))))"

record rmatch =
  start :: nat
  lastgroup :: group
  matched :: str

text \<open>
  \<open>pattern.finditer\<close>: the matches from left to right, each search starting where the
  last match ended; where the pattern does not match at the cursor the search moves one
  character on.
\<close>

function finditer_from :: "nat \<Rightarrow> str \<Rightarrow> rmatch list" where
  "finditer_from pos rest =
     (case pattern rest of
        None \<Rightarrow> (case rest of [] \<Rightarrow> [] | c # cs \<Rightarrow> finditer_from (pos + 1) cs)
      | Some (g, txt) \<Rightarrow>
          \<lparr>start = pos, lastgroup = g, matched = txt\<rparr>
            # finditer_from (pos + length txt) (drop (length txt) rest))"
  by pat_completeness auto
termination
  by (relation "measure (\<lambda>(pos, rest). length rest)")
     (auto simp: pattern_def op_pattern_def operators_def ascii_def
           split: list.splits if_splits option.splits)

declare finditer_from.simps [simp del]

definition finditer :: "str \<Rightarrow> rmatch list" where
  "finditer input_str = finditer_from 0 input_str"

text \<open>
  The body of the \<open>for\<close> loop for one match: it yields a token (\<open>Inr (Some t)\<close>), passes
  (\<open>Inr None\<close>) or raises (\<open>Inl e\<close>). A \<open>ValueError\<close> of \<open>from_letter\<close> is not caught; a
  \<open>ValueError\<close> of \<open>from_input_form\<close> is caught and \<open>RuntimeError\<close> raised instead. Every
  match has one of the five groups, so the last \<open>case _\<close> of the source has no value of
  \<open>lastgroup\<close> left.
\<close>

definition body :: "ucd \<Rightarrow> rmatch \<Rightarrow> error + token option" where
  "body U mat =
     (case lastgroup mat of
        SYMBOL \<Rightarrow>
          (case from_letter U (matched mat) of
             Inl e \<Rightarrow> Inl e
           | Inr s \<Rightarrow> Inr (Some (SymbolToken s (start mat))))
      | OPERATOR \<Rightarrow>
          (case from_input_form (matched mat) of
             Inl e \<Rightarrow> (if e = ValueError then Inl RuntimeError else Inl e)
           | Inr op \<Rightarrow> Inr (Some (OperatorToken op (start mat))))
      | PAREN \<Rightarrow>
          (if matched mat = ascii ''('' then Inr (Some (LeftParenToken (start mat)))
           else if matched mat = ascii '')'' then Inr (Some (RightParenToken (start mat)))
           else Inl RuntimeError)
      | SKIP \<Rightarrow> Inr None
      | MISMATCH \<Rightarrow> Inl (LexicalAnalysisFailedError (start mat + 1) (matched mat)))"

fun for_loop :: "ucd \<Rightarrow> rmatch list \<Rightarrow> token gen" where
  "for_loop U [] = Done"
| "for_loop U (mat # mats) =
     (case body U mat of
        Inl e \<Rightarrow> Raise e
      | Inr None \<Rightarrow> for_loop U mats
      | Inr (Some t) \<Rightarrow> Yield t (for_loop U mats))"

definition get_all_tokens :: "ucd \<Rightarrow> str \<Rightarrow> token gen" where
  "get_all_tokens U input_str = for_loop U (finditer input_str)"

text \<open>The generator with the cursor at offset \<open>pos\<close> and \<open>rest\<close> still to scan.\<close>

definition tokens_from :: "ucd \<Rightarrow> nat \<Rightarrow> str \<Rightarrow> token gen" where
  "tokens_from U pos rest = for_loop U (finditer_from pos rest)"

text \<open>\<open>list(get_all_tokens(input_str))\<close>: the tokens, or the exception.\<close>

definition token_list :: "ucd \<Rightarrow> str \<Rightarrow> error + token list" where
  "token_list U input_str =
     (case raised (get_all_tokens U input_str) of
        Some e \<Rightarrow> Inl e
      | None \<Rightarrow> Inr (yielded (get_all_tokens U input_str)))"

section \<open>Characters the scanner gives a meaning\<close>

definition operator_glyph :: "codepoint \<Rightarrow> bool" where
  "operator_glyph c \<longleftrightarrow> [c] \<in> set (map (\<lambda>op. input_form (operator_value op)) operators)"

definition paren :: "codepoint \<Rightarrow> bool" where
  "paren c \<longleftrightarrow> [c] = ascii ''('' \<or> [c] = ascii '')''"

definition meaningful :: "codepoint \<Rightarrow> bool" where
  "meaningful c \<longleftrightarrow> ascii_letter c \<or> operator_glyph c \<or> paren c \<or> isspace c"

section \<open>Notions the properties are stated with\<close>

text \<open>The index of an ASCII letter in the alphabet, whatever its case.\<close>

definition letter_index :: "codepoint \<Rightarrow> int" where
  "letter_index c = (if 0x61 \<le> c then int c - 0x61 else int c - 0x41)"

text \<open>The offset of the first character that the scanner gives no meaning, if there is
  one.\<close>

fun first_invalid :: "str \<Rightarrow> nat option" where
  "first_invalid [] = None"
| "first_invalid (c # cs) = (if meaningful c then map_option Suc (first_invalid cs) else Some 0)"

text \<open>A token starts at its position in the input: the character there is the one the
  token was made from.\<close>

fun starts_at :: "ucd \<Rightarrow> str \<Rightarrow> token \<Rightarrow> bool" where
  "starts_at U s (SymbolToken v p) \<longleftrightarrow>
     p < length s \<and> ascii_letter (s ! p) \<and> from_letter U [s ! p] = Inr v"
| "starts_at U s (OperatorToken op p) \<longleftrightarrow>
     p < length s \<and> input_form (operator_value op) = [s ! p]"
| "starts_at U s (LeftParenToken p) \<longleftrightarrow> p < length s \<and> [s ! p] = ascii ''(''"
| "starts_at U s (RightParenToken p) \<longleftrightarrow> p < length s \<and> [s ! p] = ascii '')''"

text \<open>
  The tokens the specification gives the characters of an input, one character at a
  time: a symbol token for a letter, an operator token for each of the five input
  glyphs, a parenthesis token for a parenthesis, each at the offset of its character,
  and no token for any other character. \<open>tokens_of_chars i\<close> lists them for a stretch of
  input that starts at offset \<open>i\<close>.
\<close>

fun token_of_char :: "nat \<Rightarrow> codepoint \<Rightarrow> token option" where
  "token_of_char i c =
     (if ascii_letter c then Some (SymbolToken (letter_index c) i)
      else if c = 0x21 then Some (OperatorToken NEG i)
      else if c = 0x26 then Some (OperatorToken CONJ i)
      else if c = 0x7C then Some (OperatorToken DISJ i)
      else if c = 0x7E then Some (OperatorToken MAT_COND i)
      else if c = 0x3D then Some (OperatorToken BICOND i)
      else if c = 0x28 then Some (LeftParenToken i)
      else if c = 0x29 then Some (RightParenToken i)
      else None)"

fun tokens_of_chars :: "nat \<Rightarrow> str \<Rightarrow> token list" where
  "tokens_of_chars i [] = []"
| "tokens_of_chars i (c # cs) =
     (case token_of_char i c of
        None \<Rightarrow> tokens_of_chars (Suc i) cs
      | Some t \<Rightarrow> t # tokens_of_chars (Suc i) cs)"

section \<open>The pattern, one character at a time\<close>

lemma operator_glyph_iff:
  "operator_glyph c \<longleftrightarrow> c = 0x21 \<or> c = 0x26 \<or> c = 0x7C \<or> c = 0x7E \<or> c = 0x3D"
  by (auto simp add: operator_glyph_def operators_def ascii_def)

lemma op_pattern_Cons:
  "op_pattern (c # cs) = (if operator_glyph c then Some [c] else None)"
  by (simp add: op_pattern_def operator_glyph_iff operators_def ascii_def)

lemma paren_iff: "paren c \<longleftrightarrow> c = 0x28 \<or> c = 0x29"
  by (simp add: paren_def ascii_def)

lemma newline_isspace: "isspace 0x0A"
  by (simp add: isspace_def)

lemma pattern_Nil: "pattern [] = None"
  by (simp add: pattern_def)

lemma pattern_Cons:
  "pattern (c # cs) =
     (if ascii_letter c then Some (SYMBOL, [c])
      else if operator_glyph c then Some (OPERATOR, [c])
      else if paren c then Some (PAREN, [c])
      else if isspace c then Some (SKIP, takeWhile isspace (c # cs))
      else Some (MISMATCH, [c]))"
  using newline_isspace by (auto simp add: pattern_def op_pattern_Cons paren_iff)

section \<open>Symbols of the ASCII letters\<close>

lemma classes_disjoint:
  "\<not> (ascii_letter c \<and> operator_glyph c)" "\<not> (ascii_letter c \<and> paren c)"
  "\<not> (ascii_letter c \<and> isspace c)" "\<not> (operator_glyph c \<and> paren c)"
  "\<not> (operator_glyph c \<and> isspace c)" "\<not> (paren c \<and> isspace c)"
  unfolding ascii_letter_def operator_glyph_iff paren_iff isspace_def by presburger+

lemma find_from_single:
  "k < length xs \<Longrightarrow> xs ! k = x \<Longrightarrow> (\<forall>j<k. xs ! j \<noteq> x) \<Longrightarrow> find_from i xs [x] = int (i + k)"
proof (induction xs arbitrary: i k)
  case Nil
  then show ?case by simp
next
  case (Cons h hs)
  show ?case
  proof (cases k)
    case 0
    with Cons.prems show ?thesis by simp
  next
    case (Suc k')
    with Cons.prems have "h \<noteq> x" by auto
    moreover have "find_from (Suc i) hs [x] = int (Suc i + k')"
      using Cons.prems Suc by (intro Cons.IH) auto
    ultimately show ?thesis using Suc by simp
  qed
qed

lemma ascii_uppercase_upt: "ascii_uppercase = [0x41..<0x5B]"
  by (simp add: ascii_uppercase_def ascii_def upt_rec_numeral)

lemma ascii_uppercase_nth: "k < 26 \<Longrightarrow> ascii_uppercase ! k = 0x41 + k"
  by (simp add: ascii_uppercase_upt del: upt_rec_numeral)

lemma length_ascii_uppercase: "length ascii_uppercase = 26"
  by (simp add: ascii_uppercase_upt del: upt_rec_numeral)

lemma find_ascii_uppercase:
  assumes "0x41 \<le> u" "u \<le> 0x5A"
  shows "find ascii_uppercase [u] = int u - 0x41"
proof -
  have "find_from 0 ascii_uppercase [u] = int (0 + (u - 0x41))"
  proof (rule find_from_single)
    show "u - 0x41 < length ascii_uppercase"
      using assms by (simp add: length_ascii_uppercase)
    show "ascii_uppercase ! (u - 0x41) = u"
      using assms by (simp add: ascii_uppercase_nth)
    show "\<forall>j<u - 0x41. ascii_uppercase ! j \<noteq> u"
      using assms by (auto simp add: ascii_uppercase_nth)
  qed
  then show ?thesis using assms by (simp add: find_def)
qed

lemma isalpha_ascii_letter: "ascii_letter c \<Longrightarrow> isalpha U [c]"
  by (auto simp add: ascii_letter_def isalpha_def cp_isalpha_def latin1_isalpha_def)

lemma upper_ascii_letter:
  "ascii_letter c \<Longrightarrow> upper U [c] = [if 0x61 \<le> c then c - 0x20 else c]"
  by (auto simp add: ascii_letter_def upper_def cp_upper_def latin1_upper_def)

lemma from_letter_ascii:
  assumes "ascii_letter c"
  shows "from_letter U [c] = Inr (letter_index c)"
proof -
  let ?u = "if 0x61 \<le> c then c - 0x20 else c"
  have u: "0x41 \<le> ?u" "?u \<le> 0x5A"
    using assms by (auto simp add: ascii_letter_def)
  have "find ascii_uppercase [?u] = int ?u - 0x41"
    using u by (rule find_ascii_uppercase)
  also have "\<dots> = letter_index c"
    using assms by (auto simp add: letter_index_def ascii_letter_def)
  finally show ?thesis
    using assms by (simp add: from_letter_def isalpha_ascii_letter upper_ascii_letter)
qed

lemma letter_index_range: "ascii_letter c \<Longrightarrow> 0 \<le> letter_index c \<and> letter_index c \<le> 25"
  by (auto simp add: letter_index_def ascii_letter_def)

section \<open>The scanner, one character at a time\<close>


lemma finditer_from_Nil: "finditer_from pos [] = []"
  by (simp add: finditer_from.simps [of pos "[]"] pattern_Nil)

lemma finditer_from_Cons:
  "pattern (c # cs) = Some (g, txt) \<Longrightarrow>
   finditer_from pos (c # cs) =
     \<lparr>start = pos, lastgroup = g, matched = txt\<rparr>
       # finditer_from (pos + length txt) (drop (length txt) (c # cs))"
  by (simp add: finditer_from.simps [of pos "c # cs"])

lemma tokens_from_Nil: "tokens_from U pos [] = Done"
  by (simp add: tokens_from_def finditer_from_Nil)

lemma tokens_from_letter:
  assumes "ascii_letter c"
  shows "tokens_from U pos (c # cs) =
           Yield (SymbolToken (letter_index c) pos) (tokens_from U (Suc pos) cs)"
proof -
  have "pattern (c # cs) = Some (SYMBOL, [c])"
    using assms by (simp add: pattern_Cons)
  then show ?thesis
    using assms
    by (simp add: tokens_from_def finditer_from_Cons body_def from_letter_ascii)
qed

lemma from_input_form_glyph:
  assumes "operator_glyph c"
  shows "\<exists>op. from_input_form [c] = Inr op \<and> input_form (operator_value op) = [c]"
  using assms
  by (auto simp add: operator_glyph_iff from_input_form_def operators_def ascii_def)

lemma tokens_from_operator:
  assumes "operator_glyph c" "from_input_form [c] = Inr op"
  shows "tokens_from U pos (c # cs) =
           Yield (OperatorToken op pos) (tokens_from U (Suc pos) cs)"
proof -
  have "\<not> ascii_letter c"
    using assms(1) classes_disjoint(1) by blast
  then have "pattern (c # cs) = Some (OPERATOR, [c])"
    using assms(1) by (simp add: pattern_Cons)
  then show ?thesis
    using assms(2)
    by (simp add: tokens_from_def finditer_from_Cons body_def)
qed

lemma pattern_paren:
  assumes "paren c"
  shows "pattern (c # cs) = Some (PAREN, [c])"
proof -
  have "\<not> ascii_letter c" "\<not> operator_glyph c"
    using assms classes_disjoint(2,4) by blast+
  then show ?thesis using assms by (simp add: pattern_Cons)
qed

lemma tokens_from_left_paren:
  "tokens_from U pos (0x28 # cs) = Yield (LeftParenToken pos) (tokens_from U (Suc pos) cs)"
proof -
  have "pattern (0x28 # cs) = Some (PAREN, [0x28])"
    by (rule pattern_paren) (simp add: paren_iff)
  then show ?thesis
    by (simp add: tokens_from_def finditer_from_Cons body_def ascii_def)
qed

lemma tokens_from_right_paren:
  "tokens_from U pos (0x29 # cs) = Yield (RightParenToken pos) (tokens_from U (Suc pos) cs)"
proof -
  have "pattern (0x29 # cs) = Some (PAREN, [0x29])"
    by (rule pattern_paren) (simp add: paren_iff)
  then show ?thesis
    by (simp add: tokens_from_def finditer_from_Cons body_def ascii_def)
qed

lemma pattern_space:
  assumes "isspace c"
  shows "pattern (c # cs) = Some (SKIP, takeWhile isspace (c # cs))"
proof -
  have "\<not> ascii_letter c" "\<not> operator_glyph c" "\<not> paren c"
    using assms classes_disjoint(3,5,6) by blast+
  then show ?thesis using assms by (simp add: pattern_Cons)
qed

lemma tokens_from_run:
  assumes "isspace c"
  shows "tokens_from U pos (c # cs) =
           tokens_from U (pos + length (takeWhile isspace (c # cs))) (dropWhile isspace (c # cs))"
proof -
  have "finditer_from pos (c # cs) =
          \<lparr>start = pos, lastgroup = SKIP, matched = takeWhile isspace (c # cs)\<rparr>
            # finditer_from (pos + length (takeWhile isspace (c # cs)))
                (drop (length (takeWhile isspace (c # cs))) (c # cs))"
    using pattern_space [OF assms] by (rule finditer_from_Cons)
  then show ?thesis
    by (simp only: tokens_from_def for_loop.simps body_def rmatch.simps group.case
          sum.case option.case dropWhile_eq_drop)
qed

lemma tokens_from_dropWhile:
  "tokens_from U pos cs =
     tokens_from U (pos + length (takeWhile isspace cs)) (dropWhile isspace cs)"
proof (cases cs)
  case Nil
  then show ?thesis by simp
next
  case (Cons d ds)
  show ?thesis
  proof (cases "isspace d")
    case True
    then show ?thesis unfolding Cons by (rule tokens_from_run)
  next
    case False
    then show ?thesis by (simp add: Cons)
  qed
qed

lemma tokens_from_space:
  assumes "isspace c"
  shows "tokens_from U pos (c # cs) = tokens_from U (Suc pos) cs"
proof -
  have "tokens_from U pos (c # cs) =
          tokens_from U (Suc pos + length (takeWhile isspace cs)) (dropWhile isspace cs)"
    using tokens_from_run [OF assms, of U pos cs] assms by simp
  also have "\<dots> = tokens_from U (Suc pos) cs"
    by (rule tokens_from_dropWhile [symmetric])
  finally show ?thesis .
qed

lemma tokens_from_mismatch:
  assumes "\<not> meaningful c"
  shows "tokens_from U pos (c # cs) = Raise (LexicalAnalysisFailedError (Suc pos) [c])"
proof -
  have "pattern (c # cs) = Some (MISMATCH, [c])"
    using assms by (simp add: pattern_Cons meaningful_def)
  then show ?thesis
    by (simp add: tokens_from_def finditer_from_Cons body_def)
qed

lemma get_all_tokens_from: "get_all_tokens U s = tokens_from U 0 s"
  by (simp add: get_all_tokens_def tokens_from_def finditer_def)

lemma meaningful_token:
  assumes "meaningful c"
  shows "\<exists>ts. (ts = [] \<or> (\<exists>t. ts = [t] \<and> position t = pos
                  \<and> (\<forall>s. pos < length s \<and> s ! pos = c \<longrightarrow> starts_at U s t)))
           \<and> (\<forall>cs. tokens_from U pos (c # cs) = yield_all ts (tokens_from U (Suc pos) cs))"
proof -
  consider "ascii_letter c" | "operator_glyph c" | "c = 0x28" | "c = 0x29" | "isspace c"
    using assms by (auto simp add: meaningful_def paren_iff)
  then show ?thesis
  proof cases
    case 1
    then have "\<forall>cs. tokens_from U pos (c # cs)
                 = yield_all [SymbolToken (letter_index c) pos] (tokens_from U (Suc pos) cs)"
      by (simp add: tokens_from_letter)
    then show ?thesis
      using 1 by (intro exI [of _ "[SymbolToken (letter_index c) pos]"])
        (simp add: from_letter_ascii)
  next
    case 2
    then obtain op where op: "from_input_form [c] = Inr op" "input_form (operator_value op) = [c]"
      using from_input_form_glyph by blast
    with 2 have "\<forall>cs. tokens_from U pos (c # cs)
                 = yield_all [OperatorToken op pos] (tokens_from U (Suc pos) cs)"
      by (simp add: tokens_from_operator)
    then show ?thesis
      using op by (intro exI [of _ "[OperatorToken op pos]"]) simp
  next
    case 3
    then have "\<forall>cs. tokens_from U pos (c # cs)
                 = yield_all [LeftParenToken pos] (tokens_from U (Suc pos) cs)"
      by (simp add: tokens_from_left_paren)
    then show ?thesis
      using 3 by (intro exI [of _ "[LeftParenToken pos]"]) (simp add: ascii_def)
  next
    case 4
    then have "\<forall>cs. tokens_from U pos (c # cs)
                 = yield_all [RightParenToken pos] (tokens_from U (Suc pos) cs)"
      by (simp add: tokens_from_right_paren)
    then show ?thesis
      using 4 by (intro exI [of _ "[RightParenToken pos]"]) (simp add: ascii_def)
  next
    case 5
    then have "\<forall>cs. tokens_from U pos (c # cs) = yield_all [] (tokens_from U (Suc pos) cs)"
      by (simp add: tokens_from_space)
    then show ?thesis by blast
  qed
qed


lemma meaningful_step:
  assumes "meaningful c"
  shows "\<exists>ts. (ts = [] \<or> (\<exists>t. ts = [t] \<and> position t = pos))
           \<and> (\<forall>cs. tokens_from U pos (c # cs) = yield_all ts (tokens_from U (Suc pos) cs))"
  using meaningful_token [OF assms, of pos U] by blast

section \<open>The scanner on whole inputs\<close>

lemma yielded_yield_all: "yielded (yield_all ts g) = ts @ yielded g"
  by (induction ts) simp_all

lemma raised_yield_all: "raised (yield_all ts g) = raised g"
  by (induction ts) simp_all

lemma yield_all_append: "yield_all (ts @ us) g = yield_all ts (yield_all us g)"
  by (induction ts) simp_all

lemma tokens_from_append:
  "list_all meaningful xs \<Longrightarrow>
   tokens_from U pos (xs @ ys) =
     yield_all (yielded (tokens_from U pos xs)) (tokens_from U (pos + length xs) ys)"
proof (induction xs arbitrary: pos)
  case Nil
  then show ?case by (simp add: tokens_from_Nil)
next
  case (Cons c cs)
  then have "meaningful c" and rest: "list_all meaningful cs" by simp_all
  then obtain ts where
    step: "\<And>zs. tokens_from U pos (c # zs) = yield_all ts (tokens_from U (Suc pos) zs)"
    using meaningful_step [of c pos U] by blast
  have "tokens_from U pos ((c # cs) @ ys) = yield_all ts (tokens_from U (Suc pos) (cs @ ys))"
    using step [of "cs @ ys"] by simp
  also have "\<dots> = yield_all ts (yield_all (yielded (tokens_from U (Suc pos) cs))
                        (tokens_from U (Suc pos + length cs) ys))"
    using Cons.IH [OF rest, of "Suc pos"] by simp
  also have "\<dots> = yield_all (yielded (tokens_from U pos (c # cs)))
                        (tokens_from U (pos + length (c # cs)) ys)"
    using step [of cs] by (simp add: yielded_yield_all yield_all_append)
  finally show ?case .
qed

lemma tokens_from_all_meaningful:
  assumes "list_all meaningful xs"
  shows "tokens_from U pos xs = yield_all (yielded (tokens_from U pos xs)) Done"
  using tokens_from_append [OF assms, of U pos "[]"] by (simp add: tokens_from_Nil)

lemma raised_all_meaningful:
  assumes "list_all meaningful xs"
  shows "raised (tokens_from U pos xs) = None"
proof -
  have "raised (tokens_from U pos xs) = raised (yield_all (yielded (tokens_from U pos xs)) Done)"
    using tokens_from_all_meaningful [OF assms, of U pos] by simp
  then show ?thesis by (simp add: raised_yield_all)
qed

lemma first_invalid_None: "first_invalid s = None \<longleftrightarrow> list_all meaningful s"
  by (induction s) auto

lemma first_invalid_Some:
  "first_invalid s = Some k \<longleftrightarrow>
     k < length s \<and> \<not> meaningful (s ! k) \<and> list_all meaningful (take k s)"
proof (induction s arbitrary: k)
  case Nil
  then show ?case by simp
next
  case (Cons c cs)
  show ?case
  proof (cases "meaningful c")
    case False
    then show ?thesis by (cases k) auto
  next
    case True
    show ?thesis
    proof (cases k)
      case 0
      with True show ?thesis by auto
    next
      case (Suc j)
      with True Cons.IH [of j] show ?thesis by auto
    qed
  qed
qed

lemma tokens_from_first_invalid:
  assumes "first_invalid s = Some k"
  shows "tokens_from U pos s =
           yield_all (yielded (tokens_from U pos (take k s)))
             (Raise (LexicalAnalysisFailedError (pos + k + 1) [s ! k]))"
proof -
  from assms have k: "k < length s" and bad: "\<not> meaningful (s ! k)"
    and pre: "list_all meaningful (take k s)"
    by (simp_all add: first_invalid_Some)
  have split: "s = take k s @ (s ! k) # drop (Suc k) s"
    using k by (simp add: id_take_nth_drop)
  have "tokens_from U pos (take k s @ (s ! k) # drop (Suc k) s) =
          yield_all (yielded (tokens_from U pos (take k s)))
            (tokens_from U (pos + length (take k s)) ((s ! k) # drop (Suc k) s))"
    using pre by (rule tokens_from_append)
  also have "tokens_from U (pos + length (take k s)) ((s ! k) # drop (Suc k) s) =
          Raise (LexicalAnalysisFailedError (pos + k + 1) [s ! k])"
    using k bad by (simp add: tokens_from_mismatch min_def)
  finally show ?thesis using split by simp
qed

lemma positions_from:
  "\<forall>t \<in> set (yielded (tokens_from U pos rest)). pos \<le> position t \<and> position t < pos + length rest"
proof (induction rest arbitrary: pos)
  case Nil
  then show ?case by (simp add: tokens_from_Nil)
next
  case (Cons c cs)
  show ?case
  proof (cases "meaningful c")
    case False
    then show ?thesis by (simp add: tokens_from_mismatch)
  next
    case True
    then obtain ts where ts: "ts = [] \<or> (\<exists>t. ts = [t] \<and> position t = pos)"
      and step: "tokens_from U pos (c # cs) = yield_all ts (tokens_from U (Suc pos) cs)"
      using meaningful_step [of c pos U] by blast
    show ?thesis
      using ts Cons.IH [of "Suc pos"] by (auto simp add: step yielded_yield_all)
  qed
qed

lemma positions_increasing_from:
  "sorted_wrt (<) (map position (yielded (tokens_from U pos rest)))"
proof (induction rest arbitrary: pos)
  case Nil
  then show ?case by (simp add: tokens_from_Nil)
next
  case (Cons c cs)
  show ?case
  proof (cases "meaningful c")
    case False
    then show ?thesis by (simp add: tokens_from_mismatch)
  next
    case True
    then obtain ts where ts: "ts = [] \<or> (\<exists>t. ts = [t] \<and> position t = pos)"
      and step: "tokens_from U pos (c # cs) = yield_all ts (tokens_from U (Suc pos) cs)"
      using meaningful_step [of c pos U] by blast
    have later: "\<forall>t \<in> set (yielded (tokens_from U (Suc pos) cs)). pos < position t"
      using positions_from [of U "Suc pos" cs] by auto
    show ?thesis
      using ts Cons.IH [of "Suc pos"] later by (auto simp add: step yielded_yield_all)
  qed
qed

lemma starts_at_from:
  "drop pos s = rest \<Longrightarrow> pos + length rest = length s \<Longrightarrow>
   \<forall>t \<in> set (yielded (tokens_from U pos rest)). starts_at U s t"
proof (induction rest arbitrary: pos)
  case Nil
  then show ?case by (simp add: tokens_from_Nil)
next
  case (Cons c cs)
  from Cons.prems have pos: "pos < length s" by simp
  with Cons.prems have c: "s ! pos = c" and cs: "drop (Suc pos) s = cs"
    using Cons_nth_drop_Suc [OF pos] by simp_all
  have len: "Suc pos + length cs = length s" using Cons.prems by simp
  show ?case
  proof (cases "meaningful c")
    case False
    then show ?thesis by (simp add: tokens_from_mismatch)
  next
    case True
    then obtain ts where
      ts: "ts = [] \<or> (\<exists>t. ts = [t] \<and> position t = pos
             \<and> (\<forall>s. pos < length s \<and> s ! pos = c \<longrightarrow> starts_at U s t))"
      and step: "tokens_from U pos (c # cs) = yield_all ts (tokens_from U (Suc pos) cs)"
      using meaningful_token [of c pos U] by blast
    show ?thesis
      using ts Cons.IH [OF cs len] pos c by (auto simp add: step yielded_yield_all)
  qed
qed

lemma ex_match:
  "mat \<in> set (finditer_from pos rest) \<Longrightarrow>
   \<exists>c cs. pattern (c # cs) = Some (lastgroup mat, matched mat)"
proof (induction pos rest rule: finditer_from.induct)
  case (1 pos rest)
  show ?case
  proof (cases "pattern rest")
    case None
    show ?thesis
    proof (cases rest)
      case Nil
      with "1.prems" show ?thesis by (simp add: finditer_from_Nil)
    next
      case (Cons c cs)
      with None "1.prems" have "mat \<in> set (finditer_from (pos + 1) cs)"
        by (simp add: finditer_from.simps [of pos "c # cs"])
      with "1.IH"(1) [OF None Cons] show ?thesis .
    qed
  next
    case (Some a)
    then obtain g tx where a: "a = (g, tx)" by (cases a)
    from Some a have ne: "rest \<noteq> []" by (auto simp add: pattern_Nil)
    then obtain c cs where rest: "rest = c # cs" by (cases rest) auto
    from "1.prems" Some a consider
        "mat = \<lparr>start = pos, lastgroup = g, matched = tx\<rparr>"
      | "mat \<in> set (finditer_from (pos + length tx) (drop (length tx) rest))"
      by (auto simp add: finditer_from.simps [of pos rest])
    then show ?thesis
    proof cases
      case 1
      then show ?thesis using Some a rest by auto
    next
      case 2
      with "1.IH"(2) [OF Some a [symmetric]] show ?thesis by blast
    qed
  qed
qed

lemma yield_all_yielded_Raise:
  "g = yield_all ts (Raise e) \<Longrightarrow> g = yield_all (yielded g) (Raise e)"
  by (simp add: yielded_yield_all)

lemma yielded_first_invalid:
  assumes "first_invalid s = Some k"
  shows "yielded (tokens_from U pos s) = yielded (tokens_from U pos (take k s))"
  using tokens_from_first_invalid [OF assms, of U pos] by (simp add: yielded_yield_all)

lemma raised_tokens_from:
  "raised (tokens_from U pos s) =
     (case first_invalid s of
        None \<Rightarrow> None
      | Some k \<Rightarrow> Some (LexicalAnalysisFailedError (pos + k + 1) [s ! k]))"
proof (cases "first_invalid s")
  case None
  then have "list_all meaningful s" by (simp add: first_invalid_None)
  then have "raised (tokens_from U pos s) = None" by (rule raised_all_meaningful)
  with None show ?thesis by simp
next
  case (Some k)
  then show ?thesis
    using tokens_from_first_invalid [OF Some, of U pos] by (simp add: raised_yield_all)
qed

lemma tokens_from_spaces:
  "list_all isspace ws \<Longrightarrow> tokens_from U pos (ws @ rest) = tokens_from U (pos + length ws) rest"
proof (induction ws arbitrary: pos)
  case Nil
  then show ?case by simp
next
  case (Cons c cs)
  then have "tokens_from U pos ((c # cs) @ rest) = tokens_from U (Suc pos) (cs @ rest)"
    by (simp add: tokens_from_space)
  also have "\<dots> = tokens_from U (Suc pos + length cs) rest"
    using Cons by simp
  finally show ?case by simp
qed

lemma takeWhile_run:
  assumes "list_all isspace ws" "case rest of [] \<Rightarrow> True | d # ds \<Rightarrow> \<not> isspace d"
  shows "takeWhile isspace (ws @ rest) = ws"
proof -
  have "takeWhile isspace rest = []"
    using assms(2) by (cases rest) simp_all
  then show ?thesis
    using assms(1) by (simp add: takeWhile_append2 list_all_iff)
qed

lemma body_of_match:
  assumes "pattern (c # cs) = Some (lastgroup mat, matched mat)"
  shows "(\<exists>t. body U mat = Inr t)
         \<or> body U mat = Inl (LexicalAnalysisFailedError (start mat + 1) (matched mat))"
proof -
  consider "ascii_letter c" | "\<not> ascii_letter c" "operator_glyph c"
    | "\<not> ascii_letter c" "\<not> operator_glyph c" "paren c"
    | "\<not> ascii_letter c" "\<not> operator_glyph c" "\<not> paren c" "isspace c"
    | "\<not> ascii_letter c" "\<not> operator_glyph c" "\<not> paren c" "\<not> isspace c"
    by blast
  then show ?thesis
  proof cases
    case 1
    with assms have "lastgroup mat = SYMBOL" "matched mat = [c]"
      by (simp_all add: pattern_Cons)
    with 1 show ?thesis by (simp add: body_def from_letter_ascii)
  next
    case 2
    with assms have g: "lastgroup mat = OPERATOR" "matched mat = [c]"
      by (simp_all add: pattern_Cons)
    from 2 obtain op where "from_input_form [c] = Inr op"
      using from_input_form_glyph by blast
    with g show ?thesis by (simp add: body_def)
  next
    case 3
    with assms have "lastgroup mat = PAREN" "matched mat = [c]"
      by (simp_all add: pattern_Cons)
    with 3 show ?thesis by (auto simp add: body_def paren_def)
  next
    case 4
    with assms have "lastgroup mat = SKIP" by (simp add: pattern_Cons)
    then show ?thesis by (simp add: body_def)
  next
    case 5
    with assms have "lastgroup mat = MISMATCH" by (simp add: pattern_Cons)
    then show ?thesis by (simp add: body_def)
  qed
qed

lemma body_of_finditer:
  assumes "mat \<in> set (finditer_from pos rest)"
  shows "(\<exists>t. body U mat = Inr t)
         \<or> body U mat = Inl (LexicalAnalysisFailedError (start mat + 1) (matched mat))"
proof -
  obtain c cs where "pattern (c # cs) = Some (lastgroup mat, matched mat)"
    using ex_match [OF assms] by blast
  then show ?thesis by (rule body_of_match)
qed

lemma symbol_match:
  assumes "pattern rest = Some (SYMBOL, tx)"
  shows "\<exists>c. tx = [c] \<and> ascii_letter c"
proof (cases rest)
  case Nil
  with assms show ?thesis by (simp add: pattern_Nil)
next
  case (Cons c cs)
  with assms show ?thesis by (auto simp add: pattern_Cons split: if_splits)
qed

lemma from_input_form_table:
  "from_input_form [0x21] = Inr NEG" "from_input_form [0x26] = Inr CONJ"
  "from_input_form [0x7C] = Inr DISJ" "from_input_form [0x7E] = Inr MAT_COND"
  "from_input_form [0x3D] = Inr BICOND"
  by (simp_all add: from_input_form_def operators_def ascii_def)

lemma tokens_from_meaningful_char:
  assumes "meaningful c"
  shows "tokens_from U pos (c # cs) =
           (case token_of_char pos c of
              None \<Rightarrow> tokens_from U (Suc pos) cs
            | Some t \<Rightarrow> Yield t (tokens_from U (Suc pos) cs))"
proof -
  consider "ascii_letter c" | "\<not> ascii_letter c" "operator_glyph c"
    | "\<not> ascii_letter c" "\<not> operator_glyph c" "c = 0x28"
    | "\<not> ascii_letter c" "\<not> operator_glyph c" "c = 0x29"
    | "\<not> ascii_letter c" "\<not> operator_glyph c" "\<not> paren c" "isspace c"
    using assms by (auto simp add: meaningful_def paren_iff)
  then show ?thesis
  proof cases
    case 1
    then show ?thesis by (simp add: tokens_from_letter)
  next
    case 2
    then consider "c = 0x21" | "c = 0x26" | "c = 0x7C" | "c = 0x7E" | "c = 0x3D"
      by (auto simp add: operator_glyph_iff)
    then show ?thesis
      using 2 by cases (simp_all add: tokens_from_operator from_input_form_table)
  next
    case 3
    then show ?thesis
      by (simp add: tokens_from_left_paren operator_glyph_iff)
  next
    case 4
    then show ?thesis
      by (simp add: tokens_from_right_paren operator_glyph_iff)
  next
    case 5
    then show ?thesis
      by (simp add: tokens_from_space operator_glyph_iff paren_iff)
  qed
qed

lemma tokens_from_tokens_of_chars:
  "list_all meaningful xs \<Longrightarrow>
   tokens_from U pos (xs @ ys) = yield_all (tokens_of_chars pos xs) (tokens_from U (pos + length xs) ys)"
proof (induction xs arbitrary: pos)
  case Nil
  then show ?case by simp
next
  case (Cons c cs)
  then have c: "meaningful c" and cs: "list_all meaningful cs" by simp_all
  show ?case
    using tokens_from_meaningful_char [OF c, of U pos "cs @ ys"] Cons.IH [OF cs, of "Suc pos"]
    by (simp split: option.splits)
qed

lemma token_of_char_position: "token_of_char i c = Some t \<Longrightarrow> position t = i"
  by (auto split: if_splits)

lemma token_of_char_visible:
  "meaningful c \<Longrightarrow> \<not> isspace c \<Longrightarrow> \<exists>t. token_of_char i c = Some t"
  by (auto simp add: meaningful_def operator_glyph_iff paren_iff)

lemma tokens_of_chars_covers:
  "list_all meaningful xs \<Longrightarrow> i < length xs \<Longrightarrow> \<not> isspace (xs ! i) \<Longrightarrow>
   \<exists>t \<in> set (tokens_of_chars pos xs). position t = pos + i"
proof (induction xs arbitrary: pos i)
  case Nil
  then show ?case by simp
next
  case (Cons c cs)
  show ?case
  proof (cases i)
    case 0
    with Cons.prems obtain t where t: "token_of_char pos c = Some t"
      using token_of_char_visible [of c pos] by auto
    then have "position t = pos" by (rule token_of_char_position)
    with t 0 show ?thesis by simp
  next
    case (Suc j)
    with Cons.prems have "\<exists>t \<in> set (tokens_of_chars (Suc pos) cs). position t = Suc pos + j"
      by (intro Cons.IH) simp_all
    with Suc show ?thesis by (auto split: option.splits)
  qed
qed

section \<open>Symbols of the ASCII letters, there and back\<close>

text \<open>
  On the ASCII letters \<open>from_letter\<close> is what its documentation says: the symbol of a
  letter is its index in the alphabet, whatever its case, the uppercase letters and the
  integers from 0 to 25 correspond one to one, and the letter of the symbol is the
  uppercase form of the letter. A string that is not one character, or not alphabetic,
  raises \<open>ValueError\<close> (the error the specification calls \<open>InvalidSymbolError\<close>).
\<close>

lemma from_letter_rejects:
  "length letter \<noteq> 1 \<or> \<not> isalpha U letter \<Longrightarrow> from_letter U letter = Inl ValueError"
  by (auto simp add: from_letter_def)

lemma symbol_str_index:
  assumes "0 \<le> v" "v \<le> 25"
  shows "symbol_str v = Inr [0x41 + nat v]"
proof -
  have "nat v < 26" using assms by simp
  then have "ascii_uppercase ! nat v = 0x41 + nat v" by (rule ascii_uppercase_nth)
  then show ?thesis
    using assms by (simp add: symbol_str_def length_ascii_uppercase)
qed

lemma symbol_str_from_letter_ascii:
  assumes "ascii_letter c"
  shows "from_letter U [c] = Inr (letter_index c)"
    and "symbol_str (letter_index c) = Inr (upper U [c])"
proof -
  show "from_letter U [c] = Inr (letter_index c)"
    using assms by (rule from_letter_ascii)
  have "symbol_str (letter_index c) = Inr [0x41 + nat (letter_index c)]"
    using letter_index_range [OF assms] by (intro symbol_str_index) simp_all
  also have "[0x41 + nat (letter_index c)] = upper U [c]"
    using assms by (auto simp add: upper_ascii_letter letter_index_def ascii_letter_def)
  finally show "symbol_str (letter_index c) = Inr (upper U [c])" .
qed

lemma letter_index_uppercase_bij: "bij_betw letter_index {0x41..0x5A} {0..25}"
proof (rule bij_betw_byWitness [where f' = "\<lambda>v. 0x41 + nat v"])
  show "\<forall>c\<in>{0x41..0x5A}. 0x41 + nat (letter_index c) = c"
    by (auto simp add: letter_index_def)
  show "\<forall>v\<in>{0..25}. letter_index (0x41 + nat v) = v"
    by (auto simp add: letter_index_def)
  show "letter_index ` {0x41..0x5A} \<subseteq> {0..25}"
    by (auto simp add: letter_index_def)
  show "(\<lambda>v. 0x41 + nat v) ` {0..25} \<subseteq> {0x41..0x5A}"
    by auto
qed

lemma letter_index_lowercase:
  "0x41 \<le> c \<Longrightarrow> c \<le> 0x5A \<Longrightarrow> letter_index (c + 0x20) = letter_index c"
  by (simp add: letter_index_def)

section \<open>Evaluation on concrete inputs\<close>

text \<open>The definitions a closed term of the scanner unfolds to, and the ones a closed
  term of the character classes unfolds to.\<close>

lemmas eval_defs =
  get_all_tokens_def finditer_def finditer_from.simps pattern_def op_pattern_def operators_def
  ascii_def ascii_letter_def isspace_def body_def from_letter_def isalpha_def cp_isalpha_def
  latin1_isalpha_def upper_def cp_upper_def latin1_upper_def find_def ascii_uppercase_def
  from_input_form_def

lemmas class_defs = meaningful_def ascii_letter_def operator_glyph_iff paren_iff isspace_def

section \<open>The worked examples\<close>

text \<open>
  Claim C1. Tokenizing \<open>A&B\<close> yields the symbol token of \<open>A\<close> at offset 0, the operator
  token of the conjunction at offset 1 and the symbol token of \<open>B\<close> at offset 2, and
  tokenizing \<open>(P~Q)\<close> yields a left parenthesis at 0, the symbol token of \<open>P\<close> at 1, the
  operator token of the material conditional at 2, the symbol token of \<open>Q\<close> at 3 and a
  right parenthesis at 4. Both generators end normally, so collecting them in a list
  raises nothing. The symbols of \<open>A\<close>, \<open>B\<close>, \<open>P\<close> and \<open>Q\<close> are 0, 1, 15 and 16.
\<close>

theorem tokenize_worked_examples:
  "get_all_tokens U (ascii ''A&B'') =
     Yield (SymbolToken 0 0) (Yield (OperatorToken CONJ 1) (Yield (SymbolToken 1 2) Done))
   \<and> get_all_tokens U (ascii ''(P~Q)'') =
     Yield (LeftParenToken 0) (Yield (SymbolToken 15 1) (Yield (OperatorToken MAT_COND 2)
       (Yield (SymbolToken 16 3) (Yield (RightParenToken 4) Done))))
   \<and> token_list U (ascii ''A&B'') = Inr [SymbolToken 0 0, OperatorToken CONJ 1, SymbolToken 1 2]
   \<and> token_list U (ascii ''(P~Q)'') =
     Inr [LeftParenToken 0, SymbolToken 15 1, OperatorToken MAT_COND 2, SymbolToken 16 3,
          RightParenToken 4]
   \<and> from_letter U (ascii ''A'') = Inr 0 \<and> from_letter U (ascii ''B'') = Inr 1
   \<and> from_letter U (ascii ''P'') = Inr 15 \<and> from_letter U (ascii ''Q'') = Inr 16
   \<and> from_input_form (ascii ''&'') = Inr CONJ \<and> from_input_form (ascii ''~'') = Inr MAT_COND"
  by (simp add: eval_defs token_list_def)

section \<open>Whitespace\<close>

text \<open>
  Claim C7. A run of whitespace is one match of the group \<open>SKIP\<close>, for which the loop
  body yields nothing; the scanner goes on behind the run with the cursor advanced by
  the length of the run, so the positions of the tokens behind it are offsets into the
  original input. Tokenizing \<open>A  B\<close>, with two spaces, yields the symbol token of \<open>A\<close>
  at 0 and the one of \<open>B\<close> at 3, and tokenizing the empty string yields nothing.
\<close>

theorem whitespace_run_is_skipped:
  "(ws \<noteq> [] \<and> list_all isspace ws \<and> (case rest of [] \<Rightarrow> True | d # ds \<Rightarrow> \<not> isspace d) \<longrightarrow>
      finditer_from pos (ws @ rest) =
        \<lparr>start = pos, lastgroup = SKIP, matched = ws\<rparr> # finditer_from (pos + length ws) rest
      \<and> body U \<lparr>start = pos, lastgroup = SKIP, matched = ws\<rparr> = Inr None)
   \<and> (list_all isspace ws \<longrightarrow>
        tokens_from U pos (ws @ rest) = tokens_from U (pos + length ws) rest)
   \<and> (list_all meaningful pre \<and> list_all isspace ws \<longrightarrow>
        get_all_tokens U (pre @ ws @ rest) =
          yield_all (yielded (get_all_tokens U pre)) (tokens_from U (length pre + length ws) rest))
   \<and> get_all_tokens U (ascii ''A  B'') = Yield (SymbolToken 0 0) (Yield (SymbolToken 1 3) Done)
   \<and> get_all_tokens U (ascii '''') = Done"
proof -
  have whole: "finditer_from pos (ws @ rest) =
        \<lparr>start = pos, lastgroup = SKIP, matched = ws\<rparr> # finditer_from (pos + length ws) rest
      \<and> body U \<lparr>start = pos, lastgroup = SKIP, matched = ws\<rparr> = Inr None"
    if ws: "ws \<noteq> []" "list_all isspace ws"
      and rest: "case rest of [] \<Rightarrow> True | d # ds \<Rightarrow> \<not> isspace d"
  proof -
    from ws obtain c cs where c: "ws = c # cs" "isspace c"
      by (cases ws) auto
    have run: "takeWhile isspace (c # cs @ rest) = ws"
      using takeWhile_run [OF ws(2) rest] c(1) by simp
    have "pattern (c # cs @ rest) = Some (SKIP, ws)"
      using pattern_space [OF c(2), of "cs @ rest"] run by simp
    then have "finditer_from pos (c # cs @ rest) =
        \<lparr>start = pos, lastgroup = SKIP, matched = ws\<rparr>
          # finditer_from (pos + length ws) (drop (length ws) (c # cs @ rest))"
      by (rule finditer_from_Cons)
    then show ?thesis
      using c(1) by (simp add: body_def)
  qed
  have silent: "tokens_from U pos (ws @ rest) = tokens_from U (pos + length ws) rest"
    if "list_all isspace ws"
    using that by (rule tokens_from_spaces)
  have offsets: "get_all_tokens U (pre @ ws @ rest) =
          yield_all (yielded (get_all_tokens U pre)) (tokens_from U (length pre + length ws) rest)"
    if "list_all meaningful pre" "list_all isspace ws"
    using tokens_from_append [OF that(1), of U 0 "ws @ rest"] tokens_from_spaces [OF that(2)]
    by (simp add: get_all_tokens_from)
  have examples:
    "get_all_tokens U (ascii ''A  B'') = Yield (SymbolToken 0 0) (Yield (SymbolToken 1 3) Done)"
    "get_all_tokens U (ascii '''') = Done"
    by (simp_all add: eval_defs)
  from whole silent offsets examples show ?thesis by blast
qed

text \<open>The run space, tab, newline between \<open>A\<close> and \<open>B\<close>: one match, no token, and \<open>B\<close>
  at offset 4.\<close>

theorem whitespace_run_is_skipped_witness:
  "list_all isspace [0x20, 0x09, 0x0A] \<and> list_all meaningful (ascii ''A'')
   \<and> \<not> isspace 0x42
   \<and> finditer_from 1 ([0x20, 0x09, 0x0A] @ ascii ''B'') =
       [\<lparr>start = 1, lastgroup = SKIP, matched = [0x20, 0x09, 0x0A]\<rparr>,
        \<lparr>start = 4, lastgroup = SYMBOL, matched = ascii ''B''\<rparr>]
   \<and> tokens_from latin1_only 1 ([0x20, 0x09, 0x0A] @ ascii ''B'') = Yield (SymbolToken 1 4) Done
   \<and> get_all_tokens latin1_only (ascii ''A'' @ [0x20, 0x09, 0x0A] @ ascii ''B'') =
       Yield (SymbolToken 0 0) (Yield (SymbolToken 1 4) Done)"
  using whitespace_run_is_skipped
    [of "[0x20, 0x09, 0x0A]" "ascii ''B''" 1 latin1_only "ascii ''A''"]
  by (simp add: eval_defs tokens_from_def class_defs)

section \<open>The lexical error\<close>

text \<open>
  Claim C2. For every input, the generator raises nothing when every character is
  meaningful, and otherwise raises \<open>LexicalAnalysisFailedError\<close>, and no other
  exception, with the 1-based column of the first character that is not meaningful and
  that character. The generator ends there: what it has yielded before are tokens of
  positions before that character, and nothing follows the exception. Tokenizing
  \<open>A#B\<close> yields the symbol token of \<open>A\<close> and then fails with column 2 and the
  character \<open>#\<close>.
\<close>

theorem lexical_error_at_first_invalid:
  "raised (get_all_tokens U s) =
     (case first_invalid s of
        None \<Rightarrow> None
      | Some k \<Rightarrow> Some (LexicalAnalysisFailedError (k + 1) [s ! k]))
   \<and> (\<forall>k. first_invalid s = Some k \<longrightarrow>
         k < length s \<and> \<not> meaningful (s ! k) \<and> list_all meaningful (take k s)
         \<and> get_all_tokens U s =
             yield_all (yielded (get_all_tokens U s))
               (Raise (LexicalAnalysisFailedError (k + 1) [s ! k]))
         \<and> (\<forall>t \<in> set (yielded (get_all_tokens U s)). position t < k))
   \<and> get_all_tokens U (ascii ''A#B'') =
       Yield (SymbolToken 0 0) (Raise (LexicalAnalysisFailedError 2 (ascii ''#'')))
   \<and> token_list U (ascii ''A#B'') = Inl (LexicalAnalysisFailedError 2 (ascii ''#''))"
proof -
  have outcome: "raised (get_all_tokens U s) =
     (case first_invalid s of
        None \<Rightarrow> None
      | Some k \<Rightarrow> Some (LexicalAnalysisFailedError (k + 1) [s ! k]))"
    using raised_tokens_from [of U 0 s] by (simp add: get_all_tokens_from split: option.splits)
  have stop: "k < length s \<and> \<not> meaningful (s ! k) \<and> list_all meaningful (take k s)
         \<and> get_all_tokens U s =
             yield_all (yielded (get_all_tokens U s))
               (Raise (LexicalAnalysisFailedError (k + 1) [s ! k]))
         \<and> (\<forall>t \<in> set (yielded (get_all_tokens U s)). position t < k)"
    if k: "first_invalid s = Some k" for k
  proof -
    have len: "length (take k s) = k"
      using k by (simp add: first_invalid_Some)
    have "\<forall>t \<in> set (yielded (tokens_from U 0 (take k s))). position t < k"
      using positions_from [of U 0 "take k s"] len by simp
    then have before: "\<forall>t \<in> set (yielded (get_all_tokens U s)). position t < k"
      by (simp add: get_all_tokens_from yielded_first_invalid [OF k])
    have same: "yielded (get_all_tokens U s) = yielded (tokens_from U 0 (take k s))"
      by (simp add: get_all_tokens_from yielded_first_invalid [OF k])
    have "get_all_tokens U s =
             yield_all (yielded (tokens_from U 0 (take k s)))
               (Raise (LexicalAnalysisFailedError (k + 1) [s ! k]))"
      using tokens_from_first_invalid [OF k, of U 0] by (simp add: get_all_tokens_from)
    then have "get_all_tokens U s =
             yield_all (yielded (get_all_tokens U s))
               (Raise (LexicalAnalysisFailedError (k + 1) [s ! k]))"
      by (rule yield_all_yielded_Raise)
    with before k show ?thesis by (simp add: first_invalid_Some)
  qed
  have example: "get_all_tokens U (ascii ''A#B'') =
       Yield (SymbolToken 0 0) (Raise (LexicalAnalysisFailedError 2 (ascii ''#'')))"
    by (simp add: eval_defs)
  then have "token_list U (ascii ''A#B'') = Inl (LexicalAnalysisFailedError 2 (ascii ''#''))"
    by (simp add: token_list_def)
  with outcome stop example show ?thesis by blast
qed

text \<open>The input \<open>(A|B)?C\<close>: five tokens, then the error at column 6 for \<open>?\<close>; no token
  for \<open>C\<close>.\<close>

theorem lexical_error_at_first_invalid_witness:
  "first_invalid (ascii ''(A|B)?C'') = Some 5
   \<and> raised (get_all_tokens latin1_only (ascii ''(A|B)?C'')) =
       Some (LexicalAnalysisFailedError 6 (ascii ''?''))
   \<and> yielded (get_all_tokens latin1_only (ascii ''(A|B)?C'')) =
       [LeftParenToken 0, SymbolToken 0 1, OperatorToken DISJ 2, SymbolToken 1 3,
        RightParenToken 4]"
  using lexical_error_at_first_invalid [of latin1_only "ascii ''(A|B)?C''"]
  by (simp add: eval_defs class_defs)

text \<open>
  Claim C3, as amended. A character that is not an ASCII letter, not an operator input
  form, not a parenthesis and not whitespace matches the group \<open>MISMATCH\<close>, and the
  scanner raises \<open>LexicalAnalysisFailedError\<close> with its column and the character when
  it reaches it, that is when every character before it is meaningful. Such are every
  ASCII digit, every ASCII punctuation character other than the five operator input
  forms and the two parentheses, and every character outside ASCII (the digits and the
  punctuation of other scripts among them) that is not one of the Unicode whitespace
  characters.
\<close>

theorem mismatch_raises:
  "(\<not> meaningful c \<longrightarrow>
      pattern (c # cs) = Some (MISMATCH, [c])
      \<and> tokens_from U pos (c # cs) = Raise (LexicalAnalysisFailedError (pos + 1) [c]))
   \<and> (list_all meaningful pre \<and> \<not> meaningful c \<longrightarrow>
        raised (get_all_tokens U (pre @ c # cs)) =
          Some (LexicalAnalysisFailedError (length pre + 1) [c]))
   \<and> (0x30 \<le> c \<and> c \<le> 0x39 \<longrightarrow> \<not> meaningful c)
   \<and> (c \<in> set [0x22, 0x23, 0x24, 0x25, 0x27, 0x2A, 0x2B, 0x2C, 0x2D, 0x2E, 0x2F, 0x3A, 0x3B,
                 0x3C, 0x3E, 0x3F, 0x40, 0x5B, 0x5C, 0x5D, 0x5E, 0x5F, 0x60, 0x7B, 0x7D]
        \<longrightarrow> \<not> meaningful c)
   \<and> (0x80 \<le> c \<and> \<not> isspace c \<longrightarrow> \<not> meaningful c)"
proof -
  have one: "pattern (c # cs) = Some (MISMATCH, [c])
      \<and> tokens_from U pos (c # cs) = Raise (LexicalAnalysisFailedError (pos + 1) [c])"
    if "\<not> meaningful c"
    using that by (simp add: tokens_from_mismatch pattern_Cons meaningful_def)
  have reach: "raised (get_all_tokens U (pre @ c # cs)) =
          Some (LexicalAnalysisFailedError (length pre + 1) [c])"
    if "list_all meaningful pre" "\<not> meaningful c"
    using that tokens_from_append [of pre U 0 "c # cs"]
    by (simp add: get_all_tokens_from raised_yield_all tokens_from_mismatch)
  have digit: "\<not> meaningful c" if "0x30 \<le> c \<and> c \<le> 0x39"
    using that unfolding class_defs by presburger
  have punct: "\<not> meaningful c"
    if "c \<in> set [0x22, 0x23, 0x24, 0x25, 0x27, 0x2A, 0x2B, 0x2C, 0x2D, 0x2E, 0x2F, 0x3A, 0x3B,
                 0x3C, 0x3E, 0x3F, 0x40, 0x5B, 0x5C, 0x5D, 0x5E, 0x5F, 0x60, 0x7B, 0x7D]"
    using that by (auto simp add: class_defs)
  have beyond: "\<not> meaningful c" if "0x80 \<le> c \<and> \<not> isspace c"
    using that by (auto simp add: meaningful_def ascii_letter_def operator_glyph_iff paren_iff)
  from one reach digit punct beyond show ?thesis by blast
qed

text \<open>A digit and a punctuation character behind \<open>A\<close> and a space, and U+00E9 at the
  start of the input.\<close>

theorem mismatch_raises_witness:
  "\<not> meaningful 0x37 \<and> \<not> meaningful 0x23 \<and> \<not> meaningful 0xE9 \<and> \<not> isspace 0xE9
   \<and> list_all meaningful (ascii ''A '')
   \<and> tokens_from latin1_only 0 [0xE9] = Raise (LexicalAnalysisFailedError 1 [0xE9])
   \<and> raised (get_all_tokens latin1_only (ascii ''A 7'')) =
       Some (LexicalAnalysisFailedError 3 (ascii ''7''))
   \<and> raised (get_all_tokens latin1_only (ascii ''A #'')) =
       Some (LexicalAnalysisFailedError 3 (ascii ''#''))"
  using mismatch_raises [of "0x37" "[]" latin1_only 0 "ascii ''A ''"]
    mismatch_raises [of "0x23" "[]" latin1_only 0 "ascii ''A ''"]
    mismatch_raises [of "0xE9" "[]" latin1_only 0 "[]"]
  by (simp add: ascii_def class_defs)

text \<open>
  Claim C3 as it is stated fails: the no-break space U+00A0 is a character outside ASCII,
  but \<open>\s\<close> matches it, so the scanner skips it and raises nothing. The same holds of
  the em space U+2003 between two letters.
\<close>

theorem non_ascii_whitespace_is_skipped:
  "(0x80 :: nat) \<le> 0xA0 \<and> isspace 0xA0
   \<and> get_all_tokens latin1_only [0xA0] = Done
   \<and> get_all_tokens latin1_only [0x41, 0x2003, 0x42] =
       Yield (SymbolToken 0 0) (Yield (SymbolToken 1 2) Done)"
  by (simp add: eval_defs)

section \<open>Tokens before a failure\<close>

text \<open>
  Claim C8. When the first character that is not meaningful is at offset \<open>k\<close>, the
  generator yields, before it raises \<open>LexicalAnalysisFailedError\<close>, the token of every
  character before offset \<open>k\<close> that is not whitespace: the list of the tokens it yields
  is the list \<open>tokens_of_chars\<close> gives for the input before offset \<open>k\<close>, in which
  every letter, operator glyph and parenthesis has its token at its own offset, from
  left to right. These are also the tokens that the input before offset \<open>k\<close> gives when
  it is tokenized alone, which raises nothing. A consumer of the generator therefore
  sees these tokens before the exception.
\<close>

theorem tokens_before_failure_are_yielded:
  "first_invalid s = Some k \<Longrightarrow>
     get_all_tokens U s =
       yield_all (tokens_of_chars 0 (take k s))
         (Raise (LexicalAnalysisFailedError (k + 1) [s ! k]))
     \<and> yielded (get_all_tokens U s) = tokens_of_chars 0 (take k s)
     \<and> (\<forall>i<k. \<not> isspace (s ! i) \<longrightarrow>
           (\<exists>t \<in> set (yielded (get_all_tokens U s)). position t = i))
     \<and> get_all_tokens U s =
       yield_all (yielded (get_all_tokens U (take k s)))
         (Raise (LexicalAnalysisFailedError (k + 1) [s ! k]))
     \<and> get_all_tokens U (take k s) = yield_all (yielded (get_all_tokens U (take k s))) Done
     \<and> sorted_wrt (<) (map position (yielded (get_all_tokens U (take k s))))"
proof -
  assume k: "first_invalid s = Some k"
  then have pre: "list_all meaningful (take k s)" and len: "k < length s"
    and bad: "\<not> meaningful (s ! k)"
    by (simp_all add: first_invalid_Some)
  have split: "s = take k s @ (s ! k) # drop (Suc k) s"
    using len by (simp add: id_take_nth_drop)
  have "tokens_from U 0 (take k s @ (s ! k) # drop (Suc k) s) =
          yield_all (tokens_of_chars 0 (take k s))
            (tokens_from U (0 + length (take k s)) ((s ! k) # drop (Suc k) s))"
    using pre by (rule tokens_from_tokens_of_chars)
  then have trace: "get_all_tokens U s =
       yield_all (tokens_of_chars 0 (take k s))
         (Raise (LexicalAnalysisFailedError (k + 1) [s ! k]))"
    using split len bad by (simp add: get_all_tokens_from tokens_from_mismatch min_def)
  then have ys: "yielded (get_all_tokens U s) = tokens_of_chars 0 (take k s)"
    by (simp add: yielded_yield_all)
  have cover: "\<exists>t \<in> set (yielded (get_all_tokens U s)). position t = i"
    if "i < k" "\<not> isspace (s ! i)" for i
    using tokens_of_chars_covers [OF pre, of i 0] that len by (simp add: ys)
  have old: "get_all_tokens U s =
       yield_all (yielded (get_all_tokens U (take k s)))
         (Raise (LexicalAnalysisFailedError (k + 1) [s ! k]))"
    using tokens_from_first_invalid [OF k, of U 0] by (simp add: get_all_tokens_from)
  have fine: "get_all_tokens U (take k s) = yield_all (yielded (get_all_tokens U (take k s))) Done"
    using tokens_from_all_meaningful [OF pre, of U 0] by (simp add: get_all_tokens_from)
  have inc: "sorted_wrt (<) (map position (yielded (get_all_tokens U (take k s))))"
    using positions_increasing_from [of U 0 "take k s"] by (simp add: get_all_tokens_from)
  from trace ys cover old fine inc show ?thesis by blast
qed

text \<open>The input \<open>p & q 7 r\<close>: the tokens of \<open>p\<close>, \<open>&\<close> and \<open>q\<close>, then the error at
  column 7.\<close>

theorem tokens_before_failure_are_yielded_witness:
  "first_invalid (ascii ''p & q 7 r'') = Some 6
   \<and> tokens_of_chars 0 (take 6 (ascii ''p & q 7 r'')) =
       [SymbolToken 15 0, OperatorToken CONJ 2, SymbolToken 16 4]
   \<and> get_all_tokens latin1_only (ascii ''p & q 7 r'') =
       yield_all [SymbolToken 15 0, OperatorToken CONJ 2, SymbolToken 16 4]
         (Raise (LexicalAnalysisFailedError 7 (ascii ''7'')))
   \<and> get_all_tokens latin1_only (ascii ''p & q '') =
       yield_all [SymbolToken 15 0, OperatorToken CONJ 2, SymbolToken 16 4] Done"
proof -
  have k: "first_invalid (ascii ''p & q 7 r'') = Some 6"
    by (simp add: ascii_def class_defs)
  show ?thesis
    using k tokens_before_failure_are_yielded [OF k, of latin1_only]
    by (simp add: eval_defs letter_index_def)
qed

section \<open>Errors that cannot surface\<close>

text \<open>
  Claim C9. The text of a \<open>SYMBOL\<close> match is one ASCII letter, for which \<open>from_letter\<close>
  returns a symbol from 0 to 25. For every match that \<open>finditer\<close> gives on any input,
  the loop body raises neither \<open>ValueError\<close> nor \<open>RuntimeError\<close> (nor \<open>IndexError\<close>), so
  the branches that raise them are never taken, and the only exception of
  \<open>get_all_tokens\<close> is \<open>LexicalAnalysisFailedError\<close>.
\<close>

theorem scanner_raises_only_lexical_error:
  "(\<forall>tx. pattern rest = Some (SYMBOL, tx) \<longrightarrow>
      (\<exists>c. tx = [c] \<and> ascii_letter c \<and> from_letter U tx = Inr (letter_index c)
           \<and> 0 \<le> letter_index c \<and> letter_index c \<le> 25))
   \<and> (\<forall>mat \<in> set (finditer s).
        body U mat \<noteq> Inl ValueError \<and> body U mat \<noteq> Inl RuntimeError
        \<and> body U mat \<noteq> Inl IndexError)
   \<and> raised (get_all_tokens U s) \<noteq> Some ValueError
   \<and> raised (get_all_tokens U s) \<noteq> Some RuntimeError
   \<and> raised (get_all_tokens U s) \<noteq> Some IndexError"
proof -
  have symbol: "\<exists>c. tx = [c] \<and> ascii_letter c \<and> from_letter U tx = Inr (letter_index c)
           \<and> 0 \<le> letter_index c \<and> letter_index c \<le> 25"
    if "pattern rest = Some (SYMBOL, tx)" for tx
  proof -
    from symbol_match [OF that] obtain c where "tx = [c]" "ascii_letter c" by blast
    then show ?thesis
      using from_letter_ascii [of c U] letter_index_range [of c] by simp
  qed
  have branches: "body U mat \<noteq> Inl ValueError \<and> body U mat \<noteq> Inl RuntimeError
        \<and> body U mat \<noteq> Inl IndexError"
    if "mat \<in> set (finditer s)" for mat
    using body_of_finditer [of mat 0 s U] that by (auto simp add: finditer_def)
  have "raised (get_all_tokens U s) \<noteq> Some ValueError
      \<and> raised (get_all_tokens U s) \<noteq> Some RuntimeError
      \<and> raised (get_all_tokens U s) \<noteq> Some IndexError"
    using raised_tokens_from [of U 0 s]
    by (simp add: get_all_tokens_from split: option.splits)
  with symbol branches show ?thesis by blast
qed

text \<open>The input \<open>z9\<close>: a \<open>SYMBOL\<close> match whose symbol is 25, then a \<open>MISMATCH\<close>.\<close>

theorem scanner_raises_only_lexical_error_witness:
  "pattern (ascii ''z9'') = Some (SYMBOL, ascii ''z'')
   \<and> from_letter latin1_only (ascii ''z'') = Inr 25
   \<and> finditer (ascii ''z9'') =
       [\<lparr>start = 0, lastgroup = SYMBOL, matched = ascii ''z''\<rparr>,
        \<lparr>start = 1, lastgroup = MISMATCH, matched = ascii ''9''\<rparr>]
   \<and> body latin1_only \<lparr>start = 0, lastgroup = SYMBOL, matched = ascii ''z''\<rparr>
       = Inr (Some (SymbolToken 25 0))
   \<and> body latin1_only \<lparr>start = 1, lastgroup = MISMATCH, matched = ascii ''9''\<rparr>
       = Inl (LexicalAnalysisFailedError 2 (ascii ''9''))
   \<and> raised (get_all_tokens latin1_only (ascii ''z9''))
       = Some (LexicalAnalysisFailedError 2 (ascii ''9''))"
  using scanner_raises_only_lexical_error [of "ascii ''z9''" latin1_only "ascii ''z9''"]
  by (simp add: eval_defs letter_index_def)

section \<open>Positions\<close>

text \<open>
  Claim C10. Every token that the generator yields starts at its position in the input:
  the position is an offset into the input, and the character there is the letter of the
  symbol, the input form of the operator or the parenthesis. The positions of the tokens
  are strictly increasing. This holds of every input, and so of every input that
  tokenizes without error, where the tokens yielded are the whole list.
\<close>

theorem positions_are_offsets:
  "(\<forall>t \<in> set (yielded (get_all_tokens U s)). starts_at U s t \<and> position t < length s)
   \<and> sorted_wrt (<) (map position (yielded (get_all_tokens U s)))
   \<and> (raised (get_all_tokens U s) = None \<longrightarrow>
        token_list U s = Inr (yielded (get_all_tokens U s)))"
proof -
  have "\<forall>t \<in> set (yielded (tokens_from U 0 s)). starts_at U s t"
    by (rule starts_at_from) simp_all
  moreover have "\<forall>t \<in> set (yielded (tokens_from U 0 s)). position t < length s"
    using positions_from [of U 0 s] by simp
  moreover have "sorted_wrt (<) (map position (yielded (tokens_from U 0 s)))"
    by (rule positions_increasing_from)
  ultimately show ?thesis
    by (simp add: get_all_tokens_from token_list_def)
qed

text \<open>The input \<open>a = (b)\<close>: five tokens at the offsets 0, 2, 4, 5 and 6.\<close>

theorem positions_are_offsets_witness:
  "token_list latin1_only (ascii ''a = (b)'') =
     Inr [SymbolToken 0 0, OperatorToken BICOND 2, LeftParenToken 4, SymbolToken 1 5,
          RightParenToken 6]
   \<and> starts_at latin1_only (ascii ''a = (b)'') (SymbolToken 0 0)
   \<and> starts_at latin1_only (ascii ''a = (b)'') (OperatorToken BICOND 2)
   \<and> starts_at latin1_only (ascii ''a = (b)'') (LeftParenToken 4)
   \<and> starts_at latin1_only (ascii ''a = (b)'') (SymbolToken 1 5)
   \<and> starts_at latin1_only (ascii ''a = (b)'') (RightParenToken 6)
   \<and> sorted_wrt (<) [0, 2, 4, 5, 6 :: nat]
   \<and> length (ascii ''a = (b)'') = 7"
  using positions_are_offsets [of latin1_only "ascii ''a = (b)''"]
  by (simp add: eval_defs token_list_def)

section \<open>The operator catalogue\<close>

text \<open>
  Claim C6. The enumeration has exactly five members, in the order \<open>NEG\<close>, \<open>CONJ\<close>,
  \<open>DISJ\<close>, \<open>MAT_COND\<close>, \<open>BICOND\<close>, with the values
  (\<open>!\<close>, U+00AC, 100), (\<open>&\<close>, U+2227, 90), (\<open>|\<close>, U+2228, 80), (\<open>~\<close>, U+2192, 70) and
  (\<open>=\<close>, U+2194, 60); no two members share an input form. \<open>from_input_form\<close> returns
  the member of each of the five input forms, and raises \<open>ValueError\<close> (the error the
  specification calls \<open>UnknownOperatorError\<close>) for every other string.
\<close>

theorem operator_catalogue:
  "operators = [NEG, CONJ, DISJ, MAT_COND, BICOND]
   \<and> set operators = UNIV \<and> distinct operators
   \<and> distinct (map (\<lambda>op. input_form (operator_value op)) operators)
   \<and> map operator_value operators =
       [\<lparr>input_form = ascii ''!'', actual_form = [0xAC], priority = 100\<rparr>,
        \<lparr>input_form = ascii ''&'', actual_form = [0x2227], priority = 90\<rparr>,
        \<lparr>input_form = ascii ''|'', actual_form = [0x2228], priority = 80\<rparr>,
        \<lparr>input_form = ascii ''~'', actual_form = [0x2192], priority = 70\<rparr>,
        \<lparr>input_form = ascii ''='', actual_form = [0x2194], priority = 60\<rparr>]
   \<and> from_input_form (ascii ''!'') = Inr NEG
   \<and> from_input_form (ascii ''&'') = Inr CONJ
   \<and> from_input_form (ascii ''|'') = Inr DISJ
   \<and> from_input_form (ascii ''~'') = Inr MAT_COND
   \<and> from_input_form (ascii ''='') = Inr BICOND
   \<and> (form \<notin> set (map ascii [''!'', ''&'', ''|'', ''~'', ''='']) \<longrightarrow>
        from_input_form form = Inl ValueError)"
proof -
  have "set operators = UNIV"
  proof -
    have "op \<in> set operators" for op
      by (cases op) (simp_all add: operators_def)
    then show ?thesis by auto
  qed
  then show ?thesis
    by (simp add: operators_def from_input_form_def ascii_def)
qed

text \<open>The catalogue at three strings that are not input forms: a character that is no
  operator, a doubled operator and the empty string.\<close>

theorem operator_catalogue_witness:
  "ascii ''^'' \<notin> set (map ascii [''!'', ''&'', ''|'', ''~'', ''=''])
   \<and> from_input_form (ascii ''^'') = Inl ValueError
   \<and> from_input_form (ascii ''&&'') = Inl ValueError
   \<and> from_input_form [] = Inl ValueError"
  using operator_catalogue [of "ascii ''^''"] operator_catalogue [of "ascii ''&&''"]
    operator_catalogue [of "[]"]
  by (simp add: ascii_def)

section \<open>Symbols of letters outside ASCII\<close>

text \<open>
  Claim C4, at a failing input. \<open>from_letter\<close> accepts every alphabetic character, and
  looks its uppercase form up in \<open>string.ascii_uppercase\<close> without checking the result of
  \<open>find\<close>. For U+00E9 (e with acute accent), which \<open>str.isalpha\<close> accepts and whose
  uppercase U+00C9 is not an ASCII letter, the symbol is \<open>-1\<close>: not an integer of
  \<open>0..25\<close>. It is rendered as \<open>Z\<close>, so that the symbols of \<open>Z\<close> and of U+00E9 are two
  symbols with one letter.
\<close>

theorem from_letter_outside_ascii:
  "from_letter U [0xE9] = Inr (- 1) \<and> symbol_str (- 1) = Inr (ascii ''Z'')"
  by (simp add: eval_defs symbol_str_def)

text \<open>
  Claim C5, at a failing input. U+00E9 is a single lowercase letter for \<open>str.isalpha\<close>;
  \<open>from_letter\<close> does not raise on it, and the letter of its symbol is \<open>Z\<close>, while its
  uppercase form is U+00C9. So the round trip does not give \<open>c.upper()\<close> if U+00E9 counts
  as a letter, and \<open>from_letter\<close> does not fail if it counts as a non-letter.
\<close>

theorem from_letter_round_trip_outside_ascii:
  "isalpha U [0xE9] \<and> upper U [0xE9] = [0xC9]
   \<and> from_letter U [0xE9] \<noteq> Inl ValueError
   \<and> (case from_letter U [0xE9] of Inl e \<Rightarrow> Inl e | Inr v \<Rightarrow> symbol_str v) = Inr (ascii ''Z'')
   \<and> ascii ''Z'' \<noteq> upper U [0xE9]"
  by (simp add: eval_defs symbol_str_def)

end
